theory Spec2Isabelle
  imports Main "HOL-Library.Sublist"
begin

section \<open>The task model (package model)\<close>

text \<open>
  \<^verbatim>\<open>TaskStatus\<close> is a string type with three constants; a \<^verbatim>\<open>Task\<close> is a struct that
  the downloader only ever handles through pointers. Times are Unix nanoseconds
  (\<^verbatim>\<open>time.Time\<close> read from the wall clock), the optional \<^verbatim>\<open>*time.Time\<close> is an option,
  and \<^verbatim>\<open>FileSize\<close> is an \<^verbatim>\<open>int64\<close>, kept as an integer in the signed 64-bit range.
\<close>

datatype TaskStatus = TaskStatusDownloading | TaskStatusCompleted | TaskStatusError

text \<open>
  The errors the downloader builds with \<^verbatim>\<open>fmt.Errorf\<close>, one constructor per format
  string of the source, carrying the formatted argument. Every one of them renders as a
  non-empty message, so \<^verbatim>\<open>ErrorMessage\<close> is \<open>None\<close> exactly when the Go string is
  empty.
\<close>

datatype dl_error =
    CreateRequestFailed string
  | SendRequestFailed string
  | BadStatusCode int
  | CreateFileFailed string
  | WriteFileFailed string
  | ReadFailed string
  | TaskNotExist string
  | RemoveFileFailed string

record Task =
  ID :: string
  URL :: string
  FileName :: string
  FilePath :: string
  Status :: TaskStatus
  FileSize :: int
  StartTime :: int
  EndTime :: "int option"
  ErrorMessage :: "dl_error option"

section \<open>Library functions used by the downloader\<close>

subsection \<open>\<^verbatim>\<open>fmt.Sprintf("%d", n)\<close>\<close>

definition digit_char :: "nat \<Rightarrow> char" where
  "digit_char k = ''0123456789'' ! (k mod 10)"

fun digits :: "nat \<Rightarrow> string" where
  "digits n = (if n < 10 then [digit_char n] else digits (n div 10) @ [digit_char n])"

declare digits.simps [simp del]

definition fmt_d :: "int \<Rightarrow> string" where
  "fmt_d i = (if i < 0 then CHR ''-'' # digits (nat (- i)) else digits (nat i))"

subsection \<open>\<^verbatim>\<open>path/filepath\<close> on a system whose separator is the slash\<close>

text \<open>
  \<^verbatim>\<open>filepath.Ext\<close> scans the path from its last byte towards the front, stops at a
  separator, and returns the suffix that starts at the first dot it meets. The scan is
  over the reversed path; the accumulator holds the bytes already passed.
\<close>

fun ext_scan :: "string \<Rightarrow> string \<Rightarrow> string" where
  "ext_scan [] acc = []"
| "ext_scan (c # cs) acc =
     (if c = CHR ''/'' then []
      else if c = CHR ''.'' then c # acc
      else ext_scan cs (c # acc))"

definition Ext :: "string \<Rightarrow> string" where
  "Ext path = ext_scan (rev path) []"

text \<open>
  \<^verbatim>\<open>filepath.Clean\<close> reads the path element by element and writes into a buffer;
  \<open>dotdot\<close> is the buffer index below which a \<^verbatim>\<open>..\<close> element must not remove
  anything. \<open>back_scan\<close> is the inner loop that moves the write index to the previous
  separator.
\<close>

fun back_scan :: "string \<Rightarrow> nat \<Rightarrow> nat \<Rightarrow> nat" where
  "back_scan out dotdot w =
     (if w > dotdot \<and> out ! w \<noteq> CHR ''/'' then back_scan out dotdot (w - 1) else w)"

declare back_scan.simps [simp del]

definition dot_elem :: "string \<Rightarrow> bool" where
  "dot_elem path = (path = ''.'' \<or> take 2 path = ''./'')"

definition dotdot_elem :: "string \<Rightarrow> bool" where
  "dotdot_elem path = (path = ''..'' \<or> take 3 path = ''../'')"

definition append_dotdot :: "string \<Rightarrow> string" where
  "append_dotdot out = (if length out > 0 then out @ ''/'' else out) @ ''..''"

definition append_sep :: "bool \<Rightarrow> string \<Rightarrow> string" where
  "append_sep rooted out =
     (if rooted \<and> length out \<noteq> 1 \<or> \<not> rooted \<and> length out \<noteq> 0 then out @ ''/'' else out)"

function Clean_loop :: "bool \<Rightarrow> string \<Rightarrow> string \<Rightarrow> nat \<Rightarrow> string" where
  "Clean_loop rooted path out dotdot =
     (case path of
        [] \<Rightarrow> out
      | c # rest \<Rightarrow>
          if c = CHR ''/'' then Clean_loop rooted rest out dotdot
          else if dot_elem path then Clean_loop rooted rest out dotdot
          else if dotdot_elem path then
            (if length out > dotdot then
               Clean_loop rooted (tl rest) (take (back_scan out dotdot (length out - 1)) out) dotdot
             else if \<not> rooted then
               Clean_loop rooted (tl rest) (append_dotdot out) (length (append_dotdot out))
             else Clean_loop rooted (tl rest) out dotdot)
          else
            Clean_loop rooted (dropWhile (\<lambda>x. x \<noteq> CHR ''/'') rest)
              (append_sep rooted out @ c # takeWhile (\<lambda>x. x \<noteq> CHR ''/'') rest) dotdot)"
  by pat_completeness auto
termination
  by (relation "measure (\<lambda>(rooted, path, out, dotdot). length path)")
     (auto simp: le_imp_less_Suc length_dropWhile_le)

declare Clean_loop.simps [simp del]

definition Clean_out :: "string \<Rightarrow> string" where
  "Clean_out path =
     (if hd path = CHR ''/'' then Clean_loop True (tl path) ''/'' 1
      else Clean_loop False path [] 0)"

definition Clean :: "string \<Rightarrow> string" where
  "Clean path =
     (if path = [] then ''.''
      else if Clean_out path = [] then ''.''
      else Clean_out path)"

text \<open>
  \<^verbatim>\<open>filepath.Join(a, b)\<close>: empty leading elements are skipped, the rest is joined with
  the separator and cleaned; with no non-empty element the result is empty.
\<close>

definition Join :: "string \<Rightarrow> string \<Rightarrow> string" where
  "Join a b =
     (if a \<noteq> [] then Clean (a @ ''/'' @ b)
      else if b \<noteq> [] then Clean b
      else [])"

section \<open>The downloader (package downloader)\<close>

subsection \<open>State\<close>

text \<open>
  The maps of the \<^verbatim>\<open>Downloader\<close> struct hold pointers. A pointer to a \<^verbatim>\<open>Task\<close> is an
  index into \<open>tasks\<close>, the store of all task records ever allocated; the goroutine
  started for the task at index \<open>p\<close> is \<open>workers ! p\<close>. A cancel function and a
  client are identified by the goroutine that created them.

  A goroutine's record holds its position in \<^verbatim>\<open>startDownload\<close>, the locals
  \<^verbatim>\<open>totalBytes\<close> and \<^verbatim>\<open>lastUpdate\<close>, whether its context has been cancelled, and the
  number of bytes it has appended to its file so far.
\<close>

datatype read_err = NoErr | EOF | ReadErr string

datatype wpc = PStart | PRequest | PLoop | PRead | PAfter read_err | PCleanup | PDone

record worker =
  pc :: wpc
  totalBytes :: int
  lastUpdate :: int
  ctxDone :: bool
  written :: nat

record Downloader =
  activeTasks :: "string \<rightharpoonup> nat"
  completedTasks :: "string \<rightharpoonup> nat"
  dataDir :: string
  clients :: "string \<rightharpoonup> nat"
  cancelFuncs :: "string \<rightharpoonup> nat"
  tasks :: "Task list"
  workers :: "worker list"

text \<open>\<^verbatim>\<open>New\<close>: the result of \<^verbatim>\<open>os.MkdirAll\<close> is an input.\<close>

definition empty_downloader :: "string \<Rightarrow> Downloader" where
  "empty_downloader dir =
     \<lparr>activeTasks = Map.empty, completedTasks = Map.empty, dataDir = dir,
      clients = Map.empty, cancelFuncs = Map.empty, tasks = [], workers = []\<rparr>"

definition New :: "string \<Rightarrow> string option \<Rightarrow> string + Downloader" where
  "New dir mkdirErr =
     (case mkdirErr of Some e \<Rightarrow> Inl e | None \<Rightarrow> Inr (empty_downloader dir))"

subsection \<open>\<^verbatim>\<open>CreateTask\<close>\<close>

text \<open>
  The two clock readings (\<open>now\<close> for the id, \<open>start\<close> for \<^verbatim>\<open>StartTime\<close>) are inputs.
  \<open>resolveFileName\<close> is the \<^verbatim>\<open>if fileName == "" ... else if filepath.Ext(fileName) == ""\<close>
  block. The \<^verbatim>\<open>go d.startDownload(task)\<close> statement adds a goroutine at its first
  instruction. The function returns the new pointer and a nil error.
\<close>

definition resolveFileName :: "string \<Rightarrow> string \<Rightarrow> string" where
  "resolveFileName fileName taskID =
     (if fileName = [] then ''stream_'' @ taskID @ ''.flv''
      else if Ext fileName = [] then fileName @ ''.flv''
      else fileName)"

definition newTask :: "string \<Rightarrow> string \<Rightarrow> string \<Rightarrow> int \<Rightarrow> string \<Rightarrow> Task" where
  "newTask dir url fileName start taskID =
     \<lparr>ID = taskID, URL = url, FileName = resolveFileName fileName taskID,
      FilePath = Join dir (resolveFileName fileName taskID),
      Status = TaskStatusDownloading, FileSize = 0, StartTime = start,
      EndTime = None, ErrorMessage = None\<rparr>"

definition newWorker :: worker where
  "newWorker = \<lparr>pc = PStart, totalBytes = 0, lastUpdate = 0, ctxDone = False, written = 0\<rparr>"

definition CreateTask ::
  "string \<Rightarrow> string \<Rightarrow> int \<Rightarrow> int \<Rightarrow> Downloader \<Rightarrow> (nat \<times> dl_error option) \<times> Downloader" where
  "CreateTask url fileName now start d =
     ((length (tasks d), None),
      d\<lparr>tasks := tasks d @ [newTask (dataDir d) url fileName start (fmt_d now)],
        activeTasks := (activeTasks d)(fmt_d now \<mapsto> length (tasks d)),
        workers := workers d @ [newWorker]\<rparr>)"

subsection \<open>\<^verbatim>\<open>handleDownloadError\<close>, \<^verbatim>\<open>completeTask\<close>\<close>

definition handleDownloadError :: "nat \<Rightarrow> dl_error \<Rightarrow> int \<Rightarrow> Downloader \<Rightarrow> Downloader" where
  "handleDownloadError p err endTime d =
     d\<lparr>tasks := (tasks d)[p := (tasks d ! p)\<lparr>Status := TaskStatusError,
                                              ErrorMessage := Some err,
                                              EndTime := Some endTime\<rparr>],
       activeTasks := (activeTasks d)(ID (tasks d ! p) := None),
       completedTasks := (completedTasks d)(ID (tasks d ! p) \<mapsto> p)\<rparr>"

definition completeTask :: "nat \<Rightarrow> int \<Rightarrow> int \<Rightarrow> Downloader \<Rightarrow> Downloader" where
  "completeTask p bytes endTime d =
     d\<lparr>tasks := (tasks d)[p := (tasks d ! p)\<lparr>Status := TaskStatusCompleted,
                                              FileSize := bytes,
                                              EndTime := Some endTime\<rparr>],
       activeTasks := (activeTasks d)(ID (tasks d ! p) := None),
       completedTasks := (completedTasks d)(ID (tasks d ! p) \<mapsto> p)\<rparr>"

subsection \<open>\<^verbatim>\<open>StopTask\<close> and the delete operations\<close>

text \<open>Calling a cancel function closes the \<^verbatim>\<open>Done\<close> channel of its goroutine's context.\<close>

definition cancel :: "nat \<Rightarrow> Downloader \<Rightarrow> Downloader" where
  "cancel w d = d\<lparr>workers := (workers d)[w := (workers d ! w)\<lparr>ctxDone := True\<rparr>]\<rparr>"

definition callCancel :: "string \<Rightarrow> Downloader \<Rightarrow> Downloader" where
  "callCancel taskID d = (case cancelFuncs d taskID of None \<Rightarrow> d | Some w \<Rightarrow> cancel w d)"

definition markStopped :: "nat \<Rightarrow> string \<Rightarrow> int \<Rightarrow> Downloader \<Rightarrow> Downloader" where
  "markStopped p taskID endTime d =
     d\<lparr>tasks := (tasks d)[p := (tasks d ! p)\<lparr>Status := TaskStatusCompleted,
                                              EndTime := Some endTime\<rparr>],
       activeTasks := (activeTasks d)(taskID := None),
       completedTasks := (completedTasks d)(taskID \<mapsto> p)\<rparr>"

definition StopTask :: "string \<Rightarrow> int \<Rightarrow> Downloader \<Rightarrow> dl_error option \<times> Downloader" where
  "StopTask taskID endTime d =
     (case activeTasks d taskID of
        None \<Rightarrow> (Some (TaskNotExist taskID), d)
      | Some p \<Rightarrow> (None, markStopped p taskID endTime (callCancel taskID d)))"

text \<open>The result of \<^verbatim>\<open>os.Remove\<close> is an input.\<close>

datatype remove_result = Removed | RemoveNotExist | RemoveErr string

definition DeleteActiveTask ::
  "string \<Rightarrow> remove_result \<Rightarrow> Downloader \<Rightarrow> dl_error option \<times> Downloader" where
  "DeleteActiveTask taskID rm d =
     (case activeTasks d taskID of
        None \<Rightarrow> (Some (TaskNotExist taskID), d)
      | Some p \<Rightarrow>
          (case rm of
             RemoveErr e \<Rightarrow> (Some (RemoveFileFailed e), callCancel taskID d)
           | _ \<Rightarrow> (None, (callCancel taskID d)\<lparr>activeTasks := (activeTasks d)(taskID := None)\<rparr>)))"

definition DeleteCompletedTask ::
  "string \<Rightarrow> remove_result \<Rightarrow> Downloader \<Rightarrow> dl_error option \<times> Downloader" where
  "DeleteCompletedTask taskID rm d =
     (case completedTasks d taskID of
        None \<Rightarrow> (Some (TaskNotExist taskID), d)
      | Some p \<Rightarrow>
          (case rm of
             RemoveErr e \<Rightarrow> (Some (RemoveFileFailed e), d)
           | _ \<Rightarrow> (None, d\<lparr>completedTasks := (completedTasks d)(taskID := None)\<rparr>)))"

subsection \<open>Queries\<close>

text \<open>
  Go iterates over a map in an unspecified order: \<open>order\<close> is the order in which the
  runtime visits the keys. The result is a slice of the pointers stored in the map.
\<close>

definition GetActiveTasks :: "string list \<Rightarrow> Downloader \<Rightarrow> nat list" where
  "GetActiveTasks order d = List.map_filter (activeTasks d) order"

definition GetCompletedTasks :: "string list \<Rightarrow> Downloader \<Rightarrow> nat list" where
  "GetCompletedTasks order d = List.map_filter (completedTasks d) order"

definition GetTask :: "string \<Rightarrow> Downloader \<Rightarrow> nat option" where
  "GetTask taskID d =
     (case activeTasks d taskID of
        Some p \<Rightarrow> Some p
      | None \<Rightarrow> completedTasks d taskID)"

subsection \<open>\<^verbatim>\<open>startDownload\<close>, one lock section at a time\<close>

text \<open>
  The goroutine runs concurrently with the callers of the downloader. Every access to
  the shared maps and task fields that it makes is inside a section guarded by the
  downloader's mutex, and it makes at most one such section between two program points
  of \<open>wpc\<close>; a step of the goroutine is therefore atomic. What the network, the file
  system and the clock answer is an input to the step:

  \<^item> \<open>Register\<close> (at \<open>PStart\<close>): stores the cancel function and the client.
  \<^item> \<open>Setup r t\<close> (at \<open>PRequest\<close>): the outcome \<open>r\<close> of \<^verbatim>\<open>NewRequestWithContext\<close>,
    \<^verbatim>\<open>client.Do\<close>, the status check and \<^verbatim>\<open>os.Create\<close>, in this order; \<open>t\<close> is the
    clock reading of \<^verbatim>\<open>handleDownloadError\<close> or of \<^verbatim>\<open>lastUpdate := time.Now()\<close>.
  \<^item> \<open>CheckCtx\<close> (at \<open>PLoop\<close>): the \<^verbatim>\<open>select\<close> on \<^verbatim>\<open>ctx.Done()\<close>.
  \<^item> \<open>ReadChunk n err wr t1 t2\<close> (at \<open>PRead\<close>): \<^verbatim>\<open>Read\<close> returned \<open>n\<close> and \<open>err\<close>,
    \<^verbatim>\<open>file.Write\<close> answered \<open>wr\<close>, and \<open>t1\<close>, \<open>t2\<close> are the first and second clock
    readings taken.
  \<^item> \<open>Finish t\<close> (at \<open>PAfter err\<close>): the \<^verbatim>\<open>if err != nil\<close> block after the write.
  \<^item> \<open>Cleanup\<close> (at \<open>PCleanup\<close>): the deferred function.

  An event that does not fit the program point leaves the state unchanged.
\<close>

datatype setup_result =
  SetupOk | NewRequestErr string | DoErr string | StatusNotOK int | CreateErr string

datatype write_result = WriteOk | WriteErr nat string

datatype wevent =
    Register
  | Setup setup_result int
  | CheckCtx
  | ReadChunk nat read_err write_result int int
  | Finish int
  | Cleanup

text \<open>\<^verbatim>\<open>totalBytes += int64(n)\<close> is an addition of signed 64-bit integers.\<close>

definition wrap64 :: "int \<Rightarrow> int" where
  "wrap64 x = (x + 9223372036854775808) mod 18446744073709551616 - 9223372036854775808"

definition setPc :: "nat \<Rightarrow> wpc \<Rightarrow> Downloader \<Rightarrow> Downloader" where
  "setPc p c d = d\<lparr>workers := (workers d)[p := (workers d ! p)\<lparr>pc := c\<rparr>]\<rparr>"

definition register :: "nat \<Rightarrow> Downloader \<Rightarrow> Downloader" where
  "register p d =
     d\<lparr>cancelFuncs := (cancelFuncs d)(ID (tasks d ! p) \<mapsto> p),
       clients := (clients d)(ID (tasks d ! p) \<mapsto> p)\<rparr>"

definition unregister :: "nat \<Rightarrow> Downloader \<Rightarrow> Downloader" where
  "unregister p d =
     d\<lparr>cancelFuncs := (cancelFuncs d)(ID (tasks d ! p) := None),
       clients := (clients d)(ID (tasks d ! p) := None)\<rparr>"

definition openFile :: "nat \<Rightarrow> int \<Rightarrow> Downloader \<Rightarrow> Downloader" where
  "openFile p t d =
     d\<lparr>workers := (workers d)[p := (workers d ! p)\<lparr>pc := PLoop, totalBytes := 0,
                                                  lastUpdate := t, written := 0\<rparr>]\<rparr>"

definition afterRead :: "read_err \<Rightarrow> wpc" where
  "afterRead err = (if err = NoErr then PLoop else PAfter err)"

definition addChunk :: "nat \<Rightarrow> nat \<Rightarrow> read_err \<Rightarrow> Downloader \<Rightarrow> Downloader" where
  "addChunk p n err d =
     d\<lparr>workers := (workers d)[p := (workers d ! p)
         \<lparr>pc := afterRead err,
          totalBytes := wrap64 (totalBytes (workers d ! p) + int n),
          written := written (workers d ! p) + n\<rparr>]\<rparr>"

definition flush :: "nat \<Rightarrow> int \<Rightarrow> int \<Rightarrow> Downloader \<Rightarrow> Downloader" where
  "flush p t1 t2 d =
     (if t1 - lastUpdate (workers d ! p) \<ge> 1000000000 then
        d\<lparr>tasks := (tasks d)[p := (tasks d ! p)\<lparr>FileSize := totalBytes (workers d ! p)\<rparr>],
          workers := (workers d)[p := (workers d ! p)\<lparr>lastUpdate := t2\<rparr>]\<rparr>
      else d)"

definition failedWrite :: "nat \<Rightarrow> nat \<Rightarrow> Downloader \<Rightarrow> Downloader" where
  "failedWrite p k d =
     d\<lparr>workers := (workers d)[p := (workers d ! p)
         \<lparr>pc := PCleanup, written := written (workers d ! p) + k\<rparr>]\<rparr>"

definition atRequest :: "setup_result \<Rightarrow> int \<Rightarrow> nat \<Rightarrow> Downloader \<Rightarrow> Downloader" where
  "atRequest r t p d =
     (case r of
        NewRequestErr e \<Rightarrow> setPc p PCleanup (handleDownloadError p (CreateRequestFailed e) t d)
      | DoErr e \<Rightarrow> setPc p PCleanup (handleDownloadError p (SendRequestFailed e) t d)
      | StatusNotOK c \<Rightarrow> setPc p PCleanup (handleDownloadError p (BadStatusCode c) t d)
      | CreateErr e \<Rightarrow> setPc p PCleanup (handleDownloadError p (CreateFileFailed e) t d)
      | SetupOk \<Rightarrow> openFile p t d)"

definition atLoop :: "nat \<Rightarrow> Downloader \<Rightarrow> Downloader" where
  "atLoop p d = (if ctxDone (workers d ! p) then setPc p PCleanup d else setPc p PRead d)"

definition atRead ::
  "nat \<Rightarrow> read_err \<Rightarrow> write_result \<Rightarrow> int \<Rightarrow> int \<Rightarrow> nat \<Rightarrow> Downloader \<Rightarrow> Downloader" where
  "atRead n err wr t1 t2 p d =
     (if n > 0 then
        (case wr of
           WriteErr k e \<Rightarrow> handleDownloadError p (WriteFileFailed e) t1 (failedWrite p k d)
         | WriteOk \<Rightarrow> flush p t1 t2 (addChunk p n err d))
      else setPc p (afterRead err) d)"

definition atAfter :: "read_err \<Rightarrow> int \<Rightarrow> nat \<Rightarrow> Downloader \<Rightarrow> Downloader" where
  "atAfter err t p d =
     (case err of
        EOF \<Rightarrow> setPc p PCleanup (completeTask p (totalBytes (workers d ! p)) t d)
      | ReadErr e \<Rightarrow> setPc p PCleanup (handleDownloadError p (ReadFailed e) t d)
      | NoErr \<Rightarrow> setPc p PLoop d)"

definition startDownload_at :: "wpc \<Rightarrow> wevent \<Rightarrow> nat \<Rightarrow> Downloader \<Rightarrow> Downloader" where
  "startDownload_at c ev p d =
     (case c of
        PStart \<Rightarrow> (case ev of Register \<Rightarrow> setPc p PRequest (register p d) | _ \<Rightarrow> d)
      | PRequest \<Rightarrow> (case ev of Setup r t \<Rightarrow> atRequest r t p d | _ \<Rightarrow> d)
      | PLoop \<Rightarrow> (case ev of CheckCtx \<Rightarrow> atLoop p d | _ \<Rightarrow> d)
      | PRead \<Rightarrow> (case ev of ReadChunk n err wr t1 t2 \<Rightarrow> atRead n err wr t1 t2 p d | _ \<Rightarrow> d)
      | PAfter err \<Rightarrow> (case ev of Finish t \<Rightarrow> atAfter err t p d | _ \<Rightarrow> d)
      | PCleanup \<Rightarrow> (case ev of Cleanup \<Rightarrow> setPc p PDone (unregister p d) | _ \<Rightarrow> d)
      | PDone \<Rightarrow> d)"

definition startDownload :: "nat \<Rightarrow> wevent \<Rightarrow> Downloader \<Rightarrow> Downloader" where
  "startDownload p ev d =
     (if p < length (workers d) then startDownload_at (pc (workers d ! p)) ev p d else d)"

subsection \<open>\<^verbatim>\<open>handleCreateTask\<close> (package handler)\<close>

text \<open>
  The request body is decoded from JSON or from a form, by content type; \<open>body\<close> is the
  outcome of the decoding. The result is the HTTP status and, on success, the task that
  is encoded into the response.
\<close>

datatype request_body = BodyError | Body string string

definition handleCreateTask ::
  "string \<Rightarrow> request_body \<Rightarrow> int \<Rightarrow> int \<Rightarrow> Downloader \<Rightarrow> (nat \<times> nat option) \<times> Downloader" where
  "handleCreateTask method body now start d =
     (if method \<noteq> ''POST'' then ((405, None), d)
      else case body of
        BodyError \<Rightarrow> ((400, None), d)
      | Body url fileName \<Rightarrow>
          if url = [] then ((400, None), d)
          else (case CreateTask url fileName now start d of
                  ((task, Some err), d') \<Rightarrow> ((500, None), d')
                | ((task, None), d') \<Rightarrow> ((200, Some task), d')))"

subsection \<open>Executions\<close>

text \<open>
  An execution is a sequence of atomic steps: calls of the state-changing operations of
  the downloader, and steps of the goroutines, in any interleaving.
\<close>

datatype label =
    LCreate string string int int
  | LStop string int
  | LDeleteActive string remove_result
  | LDeleteCompleted string remove_result
  | LWorker nat wevent

fun step :: "label \<Rightarrow> Downloader \<Rightarrow> Downloader" where
  "step (LCreate url fileName now start) d = snd (CreateTask url fileName now start d)"
| "step (LStop taskID t) d = snd (StopTask taskID t d)"
| "step (LDeleteActive taskID rm) d = snd (DeleteActiveTask taskID rm d)"
| "step (LDeleteCompleted taskID rm) d = snd (DeleteCompletedTask taskID rm d)"
| "step (LWorker p ev) d = startDownload p ev d"

fun exec :: "label list \<Rightarrow> Downloader \<Rightarrow> Downloader" where
  "exec [] d = d"
| "exec (l # ls) d = exec ls (step l d)"

text \<open>
  \<open>in_int64 ls d\<close>: along the execution \<open>ls\<close> from \<open>d\<close>, no addition to a byte counter
  leaves the signed 64-bit range.
\<close>

fun fits :: "label \<Rightarrow> Downloader \<Rightarrow> bool" where
  "fits (LWorker p (ReadChunk n err WriteOk t1 t2)) d =
     (p < length (workers d) \<and> pc (workers d ! p) = PRead
        \<longrightarrow> totalBytes (workers d ! p) + int n \<le> 9223372036854775807)"
| "fits _ d = True"

fun in_int64 :: "label list \<Rightarrow> Downloader \<Rightarrow> bool" where
  "in_int64 [] d = True"
| "in_int64 (l # ls) d = (fits l d \<and> in_int64 ls (step l d))"

text \<open>
  \<open>fresh_ids ls d\<close>: along the execution, every call of \<^verbatim>\<open>CreateTask\<close> reads a clock value
  whose decimal form is the id of no task allocated before.
\<close>

fun fresh :: "label \<Rightarrow> Downloader \<Rightarrow> bool" where
  "fresh (LCreate url fileName now start) d = (fmt_d now \<notin> set (map ID (tasks d)))"
| "fresh _ d = True"

fun fresh_ids :: "label list \<Rightarrow> Downloader \<Rightarrow> bool" where
  "fresh_ids [] d = True"
| "fresh_ids (l # ls) d = (fresh l d \<and> fresh_ids ls (step l d))"

subsection \<open>Notions used to state the properties\<close>

text \<open>The final element of a path: what follows its last separator.\<close>

definition final_element :: "string \<Rightarrow> string" where
  "final_element path = rev (takeWhile (\<lambda>c. c \<noteq> CHR ''/'') (rev path))"

text \<open>The task record that a call of \<^verbatim>\<open>CreateTask\<close> returns a pointer to.\<close>

definition created :: "string \<Rightarrow> string \<Rightarrow> int \<Rightarrow> int \<Rightarrow> Downloader \<Rightarrow> Task" where
  "created url fileName now start d =
     tasks (snd (CreateTask url fileName now start d))
       ! fst (fst (CreateTask url fileName now start d))"

text \<open>
  The properties of reachable states. \<open>inv_status\<close>: a task has an end time exactly
  when it is not downloading. \<open>inv_bytes\<close>: every task has its goroutine, whose byte
  counter is non-negative, at least the task's published size, zero before the file is
  opened, and equal to the number of bytes appended to the file as long as the goroutine
  is before its exit. \<open>inv_reg\<close>: a pointer in the active map is that of a downloading
  task with the key as id; a pointer in the completed map is that of a task that is not
  downloading, with the key as id. \<open>inv_disj\<close>: no id is in both maps.
\<close>

definition task_ok :: "Task \<Rightarrow> bool" where
  "task_ok t = ((EndTime t = None) = (Status t = TaskStatusDownloading))"

definition inv_status :: "Downloader \<Rightarrow> bool" where
  "inv_status d = (\<forall>p < length (tasks d). task_ok (tasks d ! p))"

definition counter_ok :: "Task \<Rightarrow> worker \<Rightarrow> bool" where
  "counter_ok t w =
     (0 \<le> totalBytes w \<and> FileSize t \<le> totalBytes w \<and>
      (pc w = PStart \<or> pc w = PRequest \<longrightarrow> totalBytes w = 0) \<and>
      (pc w \<noteq> PCleanup \<and> pc w \<noteq> PDone \<longrightarrow> totalBytes w = int (written w)))"

definition inv_bytes :: "Downloader \<Rightarrow> bool" where
  "inv_bytes d =
     (length (workers d) = length (tasks d) \<and>
      (\<forall>p < length (tasks d). counter_ok (tasks d ! p) (workers d ! p)))"

definition inv_reg :: "Downloader \<Rightarrow> bool" where
  "inv_reg d =
     (length (workers d) = length (tasks d) \<and>
      (\<forall>k p. activeTasks d k = Some p \<longrightarrow>
         p < length (tasks d) \<and> ID (tasks d ! p) = k \<and>
         Status (tasks d ! p) = TaskStatusDownloading) \<and>
      (\<forall>k p. completedTasks d k = Some p \<longrightarrow>
         p < length (tasks d) \<and> ID (tasks d ! p) = k \<and>
         Status (tasks d ! p) \<noteq> TaskStatusDownloading))"

definition inv_disj :: "Downloader \<Rightarrow> bool" where
  "inv_disj d = (\<forall>k. activeTasks d k = None \<or> completedTasks d k = None)"

text \<open>
  Two executions used as examples. In \<open>run_download\<close> a task is created and its
  goroutine registers, opens the stream and the file, reads 100 bytes (published, since
  more than a second has passed) and then 50 bytes together with the end of the stream.
  In \<open>run_active\<close> the goroutine has just opened the stream and the file; in
  \<open>run_deleted\<close> the task is then deleted, and the goroutine runs to its end.
\<close>

definition run_download :: "label list" where
  "run_download =
     [LCreate ''http://x/live.flv'' ''show'' 7 8,
      LWorker 0 Register,
      LWorker 0 (Setup SetupOk 10),
      LWorker 0 CheckCtx,
      LWorker 0 (ReadChunk 100 NoErr WriteOk 2000000000 2000000001),
      LWorker 0 CheckCtx,
      LWorker 0 (ReadChunk 50 EOF WriteOk 2000000002 2000000003)]"

definition run_active :: "label list" where
  "run_active =
     [LCreate ''http://x/live.flv'' ''show'' 7 8,
      LWorker 0 Register,
      LWorker 0 (Setup SetupOk 10)]"

definition run_deleted :: "label list" where
  "run_deleted =
     run_active @ [LDeleteActive ''7'' Removed, LWorker 0 CheckCtx, LWorker 0 Cleanup]"

text \<open>
  In \<open>run_blocked\<close> the goroutine has passed the check of its context and waits in
  \<^verbatim>\<open>Read\<close>. \<open>read_cancelled\<close> is what follows when the context is cancelled then: the
  pending \<^verbatim>\<open>Read\<close> returns no bytes and an error that is not \<^verbatim>\<open>io.EOF\<close>, and the
  goroutine handles it. In \<open>run_delete_blocked\<close> the cancellation comes from a
  successful \<^verbatim>\<open>DeleteActiveTask\<close>.
\<close>

definition run_blocked :: "label list" where
  "run_blocked = run_active @ [LWorker 0 CheckCtx]"

definition read_cancelled :: "label list" where
  "read_cancelled =
     [LWorker 0 (ReadChunk 0 (ReadErr ''context canceled'') WriteOk 11 12),
      LWorker 0 (Finish 13)]"

definition run_delete_blocked :: "label list" where
  "run_delete_blocked = run_blocked @ [LDeleteActive ''7'' Removed] @ read_cancelled"

text \<open>\<open>no_create k ls\<close>: no step of \<open>ls\<close> is a call of \<^verbatim>\<open>CreateTask\<close> that takes the id \<open>k\<close>.\<close>

fun creates :: "string \<Rightarrow> label \<Rightarrow> bool" where
  "creates k (LCreate url fileName now start) = (fmt_d now = k)"
| "creates k l = False"

definition no_create :: "string \<Rightarrow> label list \<Rightarrow> bool" where
  "no_create k ls = list_all (\<lambda>l. \<not> creates k l) ls"

text \<open>
  What the goroutine of the task at \<open>p\<close> has done to the task and the maps when it
  leaves through an error or the end of the stream, between the states \<open>d\<close> and \<open>d'\<close>.
\<close>

definition finalized :: "nat \<Rightarrow> int \<Rightarrow> Downloader \<Rightarrow> Downloader \<Rightarrow> bool" where
  "finalized p t d d' =
     (EndTime (tasks d' ! p) = Some t \<and>
      Status (tasks d' ! p) \<noteq> TaskStatusDownloading \<and>
      activeTasks d' (ID (tasks d ! p)) = None \<and>
      completedTasks d' (ID (tasks d ! p)) = Some p \<and>
      pc (workers d' ! p) = PCleanup)"

text \<open>What stays as it was when a step touches neither a task nor the two maps.\<close>

definition untouched :: "Downloader \<Rightarrow> Downloader \<Rightarrow> bool" where
  "untouched d d' =
     (tasks d' = tasks d \<and> activeTasks d' = activeTasks d \<and>
      completedTasks d' = completedTasks d)"

section \<open>Properties\<close>

subsection \<open>Evaluation on concrete inputs\<close>

lemmas path_eval = Join_def Clean_def Clean_out_def Clean_loop.simps dot_elem_def
  dotdot_elem_def back_scan.simps append_sep_def append_dotdot_def

lemmas fmt_eval = fmt_d_def digits.simps digit_char_def

subsection \<open>File names and paths\<close>

lemma ext_scan_empty_iff:
  "ext_scan xs acc = [] \<longleftrightarrow> CHR ''.'' \<notin> set (takeWhile (\<lambda>c. c \<noteq> CHR ''/'') xs)"
  by (induction xs arbitrary: acc) auto

lemma Ext_empty_iff: "Ext path = [] \<longleftrightarrow> CHR ''.'' \<notin> set (final_element path)"
  by (simp add: Ext_def final_element_def ext_scan_empty_iff)

lemma created_eq:
  "created url fileName now start d = newTask (dataDir d) url fileName start (fmt_d now)"
  by (simp add: created_def CreateTask_def)

text \<open>
  Claim C7. The file name of a created task: for an empty supplied name it is
  \<^verbatim>\<open>stream_<id>.flv\<close>, where the id is the decimal clock reading; for a name whose final
  path element has no dot (\<^verbatim>\<open>filepath.Ext\<close> is empty) it is the name followed by
  \<^verbatim>\<open>.flv\<close>; otherwise it is the name as given.
\<close>

theorem CreateTask_file_name:
  "ID (created url fileName now start d) = fmt_d now \<and>
   FileName (created url fileName now start d) =
     (if fileName = [] then ''stream_'' @ fmt_d now @ ''.flv''
      else if CHR ''.'' \<in> set (final_element fileName) then fileName
      else fileName @ ''.flv'')"
  by (simp add: created_eq newTask_def resolveFileName_def Ext_empty_iff)

theorem CreateTask_file_name_witness:
  "FileName (created ''http://x/live.flv'' ''show'' 1730000000123456789 5
      (empty_downloader ''/app/data'')) = ''show.flv'' \<and>
   FileName (created ''http://x/live.flv'' [] 1730000000123456789 5
      (empty_downloader ''/app/data'')) = ''stream_1730000000123456789.flv'' \<and>
   FileName (created ''http://x/live.flv'' ''a.b/show.mp4'' 1730000000123456789 5
      (empty_downloader ''/app/data'')) = ''a.b/show.mp4''"
  using
    CreateTask_file_name [of "''http://x/live.flv''" "''show''" 1730000000123456789 5
      "empty_downloader ''/app/data''"]
    CreateTask_file_name [of "''http://x/live.flv''" "[]" 1730000000123456789 5
      "empty_downloader ''/app/data''"]
    CreateTask_file_name [of "''http://x/live.flv''" "''a.b/show.mp4''" 1730000000123456789 5
      "empty_downloader ''/app/data''"]
  by (simp add: final_element_def fmt_eval)

text \<open>
  Claim C10. \<^verbatim>\<open>CreateTask\<close> never refuses a file name, and the file path of the created
  task is the join of the data directory with the resolved file name, whatever the name
  is. With the data directory \<^verbatim>\<open>/app/data\<close> and the supplied name
  \<^verbatim>\<open>../../etc/x.flv\<close> the path is \<^verbatim>\<open>/etc/x.flv\<close>, which is not below the data
  directory.
\<close>

theorem CreateTask_file_path:
  "fst (CreateTask url fileName now start d) = (length (tasks d), None) \<and>
   FilePath (created url fileName now start d) =
     Join (dataDir d) (FileName (created url fileName now start d)) \<and>
   FilePath (created url ''../../etc/x.flv'' now start (empty_downloader ''/app/data''))
     = ''/etc/x.flv'' \<and>
   \<not> prefix ''/app/data/''
     (FilePath (created url ''../../etc/x.flv'' now start (empty_downloader ''/app/data'')))"
proof -
  have "resolveFileName ''../../etc/x.flv'' (fmt_d now) = ''../../etc/x.flv''"
    by (simp add: resolveFileName_def Ext_def)
  moreover have "Join ''/app/data'' ''../../etc/x.flv'' = ''/etc/x.flv''"
    by (simp add: path_eval)
  ultimately show ?thesis
    by (simp add: created_eq newTask_def CreateTask_def empty_downloader_def)
qed

subsection \<open>Creating a task\<close>

text \<open>
  Claim C2, as the code has it. \<^verbatim>\<open>CreateTask\<close> does not look at the URL and returns no
  error: for every URL, the empty one included, it allocates the task, inserts it into
  the active map under its id, starts the goroutine and returns the task. The check for
  an empty URL is made by the HTTP handler before it calls \<^verbatim>\<open>CreateTask\<close>: an empty URL
  is answered with status 400 and the downloader is left as it was; a non-empty URL is
  answered with status 200 and the task that \<^verbatim>\<open>CreateTask\<close> returned.
\<close>

theorem CreateTask_never_fails:
  "snd (fst (CreateTask url fileName now start d)) = None \<and>
   fst (fst (CreateTask url fileName now start d)) = length (tasks d) \<and>
   activeTasks (snd (CreateTask url fileName now start d)) (fmt_d now) = Some (length (tasks d)) \<and>
   URL (created url fileName now start d) = url \<and>
   Status (created url fileName now start d) = TaskStatusDownloading \<and>
   workers (snd (CreateTask url fileName now start d)) = workers d @ [newWorker] \<and>
   handleCreateTask ''POST'' (Body [] fileName) now start d = ((400, None), d) \<and>
   (url \<noteq> [] \<longrightarrow>
      handleCreateTask ''POST'' (Body url fileName) now start d =
        ((200, Some (length (tasks d))), snd (CreateTask url fileName now start d)))"
  by (simp add: created_eq newTask_def CreateTask_def handleCreateTask_def)

theorem CreateTask_never_fails_witness:
  "handleCreateTask ''POST'' (Body ''http://x/live.flv'' ''show'') 7 8
      (empty_downloader ''/app/data'')
     = ((200, Some 0),
        snd (CreateTask ''http://x/live.flv'' ''show'' 7 8 (empty_downloader ''/app/data''))) \<and>
   activeTasks
     (snd (CreateTask ''http://x/live.flv'' ''show'' 7 8 (empty_downloader ''/app/data'')))
     ''7'' = Some 0"
  using CreateTask_never_fails [of "''http://x/live.flv''" "''show''" 7 8
      "empty_downloader ''/app/data''"]
  by (simp add: empty_downloader_def fmt_eval)

text \<open>
  The claim as the specification states it fails: called with the empty URL,
  \<^verbatim>\<open>CreateTask\<close> returns a task and a nil error, and the task is in the active map.
\<close>

theorem CreateTask_empty_url_counterexample:
  "fst (CreateTask [] ''a.flv'' 7 8 (empty_downloader ''/app/data'')) = (0, None) \<and>
   activeTasks (snd (CreateTask [] ''a.flv'' 7 8 (empty_downloader ''/app/data''))) ''7''
     = Some 0 \<and>
   URL (tasks (snd (CreateTask [] ''a.flv'' 7 8 (empty_downloader ''/app/data''))) ! 0) = []"
  by (simp add: CreateTask_def empty_downloader_def newTask_def fmt_eval)

subsection \<open>Invariants of executions\<close>

lemmas op_defs = CreateTask_def StopTask_def DeleteActiveTask_def DeleteCompletedTask_def
  markStopped_def callCancel_def cancel_def handleDownloadError_def completeTask_def

lemmas worker_defs = startDownload_def startDownload_at_def atRequest_def atLoop_def atRead_def
  atAfter_def setPc_def register_def unregister_def openFile_def addChunk_def flush_def
  failedWrite_def afterRead_def

lemma nth_upd: "j < length xs \<Longrightarrow> xs[i := x] ! j = (if i = j then x else xs ! j)"
  by (cases "i = j") simp_all

lemma wrap64_id: "0 \<le> x \<Longrightarrow> x \<le> 9223372036854775807 \<Longrightarrow> wrap64 x = x"
  by (simp add: wrap64_def)

lemma exec_append: "exec (xs @ ys) d = exec ys (exec xs d)"
  by (induction xs arbitrary: d) simp_all

text \<open>End time and status.\<close>

lemma inv_status_init: "inv_status (empty_downloader dir)"
  by (simp add: inv_status_def empty_downloader_def)

lemma inv_status_manager:
  assumes "inv_status d"
  shows "inv_status (snd (CreateTask url fileName now start d))"
    and "inv_status (snd (StopTask taskID t d))"
    and "inv_status (snd (DeleteActiveTask taskID rm d))"
    and "inv_status (snd (DeleteCompletedTask taskID rm d))"
  using assms
  by (auto simp: inv_status_def task_ok_def op_defs newTask_def nth_append nth_upd
      split: option.splits remove_result.splits)

lemma inv_status_worker:
  assumes "inv_status d"
  shows "inv_status (startDownload p ev d)"
  using assms
  by (auto simp: inv_status_def task_ok_def worker_defs handleDownloadError_def completeTask_def
       nth_upd
      split: wpc.splits wevent.splits setup_result.splits write_result.splits read_err.splits)

lemma inv_status_step: "inv_status d \<Longrightarrow> inv_status (step l d)"
  by (cases l) (simp_all add: inv_status_manager inv_status_worker)

lemma inv_status_exec: "inv_status d \<Longrightarrow> inv_status (exec ls d)"
  by (induction ls arbitrary: d) (simp_all add: inv_status_step)

text \<open>Byte counters.\<close>

lemma inv_bytes_init: "inv_bytes (empty_downloader dir)"
  by (simp add: inv_bytes_def empty_downloader_def)

lemma inv_bytes_manager:
  assumes "inv_bytes d"
  shows "inv_bytes (snd (CreateTask url fileName now start d))"
    and "inv_bytes (snd (StopTask taskID t d))"
    and "inv_bytes (snd (DeleteActiveTask taskID rm d))"
    and "inv_bytes (snd (DeleteCompletedTask taskID rm d))"
  using assms
  by (auto simp: inv_bytes_def counter_ok_def op_defs newTask_def newWorker_def nth_append nth_upd
      split: option.splits remove_result.splits)

lemma inv_bytes_worker:
  assumes "inv_bytes d" and "fits (LWorker p ev) d"
  shows "inv_bytes (startDownload p ev d)"
  using assms
  by (auto simp: inv_bytes_def counter_ok_def worker_defs handleDownloadError_def completeTask_def
       nth_upd wrap64_id
      split: wpc.splits wevent.splits setup_result.splits write_result.splits read_err.splits)

lemma inv_bytes_step: "inv_bytes d \<Longrightarrow> fits l d \<Longrightarrow> inv_bytes (step l d)"
  by (cases l) (simp_all add: inv_bytes_manager inv_bytes_worker)

lemma inv_bytes_exec: "inv_bytes d \<Longrightarrow> in_int64 ls d \<Longrightarrow> inv_bytes (exec ls d)"
  by (induction ls arbitrary: d) (simp_all add: inv_bytes_step)

text \<open>The two maps.\<close>

lemma inv_reg_init: "inv_reg (empty_downloader dir)"
  by (simp add: inv_reg_def empty_downloader_def)

lemma inv_reg_active:
  "inv_reg d \<Longrightarrow> activeTasks d k = Some p \<Longrightarrow>
     p < length (tasks d) \<and> ID (tasks d ! p) = k \<and> Status (tasks d ! p) = TaskStatusDownloading"
  by (simp add: inv_reg_def)

lemma inv_reg_completed:
  "inv_reg d \<Longrightarrow> completedTasks d k = Some p \<Longrightarrow>
     p < length (tasks d) \<and> ID (tasks d ! p) = k \<and> Status (tasks d ! p) \<noteq> TaskStatusDownloading"
  by (simp add: inv_reg_def)

lemma inv_reg_length: "inv_reg d \<Longrightarrow> length (workers d) = length (tasks d)"
  by (simp add: inv_reg_def)

lemma inv_regI:
  assumes "length (workers d) = length (tasks d)"
    and "\<And>k p. activeTasks d k = Some p \<Longrightarrow>
           p < length (tasks d) \<and> ID (tasks d ! p) = k \<and> Status (tasks d ! p) = TaskStatusDownloading"
    and "\<And>k p. completedTasks d k = Some p \<Longrightarrow>
           p < length (tasks d) \<and> ID (tasks d ! p) = k \<and> Status (tasks d ! p) \<noteq> TaskStatusDownloading"
  shows "inv_reg d"
  using assms by (simp add: inv_reg_def)

lemma inv_reg_CreateTask:
  assumes "inv_reg d"
  shows "inv_reg (snd (CreateTask url fileName now start d))"
proof (rule inv_regI)
  show "length (workers (snd (CreateTask url fileName now start d)))
      = length (tasks (snd (CreateTask url fileName now start d)))"
    using inv_reg_length [OF assms] by (simp add: CreateTask_def)
next
  fix k p
  assume "activeTasks (snd (CreateTask url fileName now start d)) k = Some p"
  then show "p < length (tasks (snd (CreateTask url fileName now start d))) \<and>
      ID (tasks (snd (CreateTask url fileName now start d)) ! p) = k \<and>
      Status (tasks (snd (CreateTask url fileName now start d)) ! p) = TaskStatusDownloading"
    using inv_reg_active [OF assms, of k p]
    by (auto simp: CreateTask_def newTask_def nth_append split: if_splits)
next
  fix k p
  assume "completedTasks (snd (CreateTask url fileName now start d)) k = Some p"
  then show "p < length (tasks (snd (CreateTask url fileName now start d))) \<and>
      ID (tasks (snd (CreateTask url fileName now start d)) ! p) = k \<and>
      Status (tasks (snd (CreateTask url fileName now start d)) ! p) \<noteq> TaskStatusDownloading"
    using inv_reg_completed [OF assms, of k p]
    by (auto simp: CreateTask_def newTask_def nth_append split: if_splits)
qed

text \<open>Finalising the task at p under its own id keeps the registry invariant.\<close>

lemma inv_reg_finalise:
  assumes "inv_reg d"
    and "tasks d' = (tasks d)[p := t']" and "ID t' = ID (tasks d ! p)"
    and "Status t' \<noteq> TaskStatusDownloading"
    and "activeTasks d' = (activeTasks d)(ID (tasks d ! p) := None)"
    and "completedTasks d' = (completedTasks d)(ID (tasks d ! p) \<mapsto> p)"
    and "length (workers d') = length (workers d)"
    and "p < length (tasks d)"
  shows "inv_reg d'"
proof (rule inv_regI)
  show "length (workers d') = length (tasks d')"
    using assms inv_reg_length [OF assms(1)] by simp
next
  fix k q
  assume "activeTasks d' k = Some q"
  then have "k \<noteq> ID (tasks d ! p)" and a: "activeTasks d k = Some q"
    using assms(5) by (auto split: if_splits)
  with inv_reg_active [OF assms(1) a] have "q \<noteq> p" by auto
  then show "q < length (tasks d') \<and> ID (tasks d' ! q) = k \<and> Status (tasks d' ! q) = TaskStatusDownloading"
    using inv_reg_active [OF assms(1) a] assms(2) by (simp add: nth_upd)
next
  fix k q
  assume c: "completedTasks d' k = Some q"
  show "q < length (tasks d') \<and> ID (tasks d' ! q) = k \<and> Status (tasks d' ! q) \<noteq> TaskStatusDownloading"
  proof (cases "k = ID (tasks d ! p)")
    case True
    with c assms show ?thesis by (simp add: nth_upd)
  next
    case False
    with c assms(6) have c': "completedTasks d k = Some q" by simp
    with inv_reg_completed [OF assms(1) c'] False have "q \<noteq> p" by auto
    then show ?thesis
      using inv_reg_completed [OF assms(1) c'] assms(2) by (simp add: nth_upd)
  qed
qed


lemma inv_reg_sub:
  assumes "inv_reg d"
    and "length (workers d') = length (workers d)"
    and "length (tasks d') = length (tasks d)"
    and "\<And>q. q < length (tasks d) \<Longrightarrow>
           ID (tasks d' ! q) = ID (tasks d ! q) \<and> Status (tasks d' ! q) = Status (tasks d ! q)"
    and "\<And>k q. activeTasks d' k = Some q \<Longrightarrow> activeTasks d k = Some q"
    and "\<And>k q. completedTasks d' k = Some q \<Longrightarrow> completedTasks d k = Some q"
  shows "inv_reg d'"
proof (rule inv_regI)
  show "length (workers d') = length (tasks d')"
    using assms(2,3) inv_reg_length [OF assms(1)] by simp
next
  fix k q
  assume "activeTasks d' k = Some q"
  then have "activeTasks d k = Some q" by (rule assms(5))
  from inv_reg_active [OF assms(1) this] assms(3) assms(4) [of q]
  show "q < length (tasks d') \<and> ID (tasks d' ! q) = k \<and> Status (tasks d' ! q) = TaskStatusDownloading"
    by simp
next
  fix k q
  assume "completedTasks d' k = Some q"
  then have "completedTasks d k = Some q" by (rule assms(6))
  from inv_reg_completed [OF assms(1) this] assms(3) assms(4) [of q]
  show "q < length (tasks d') \<and> ID (tasks d' ! q) = k \<and> Status (tasks d' ! q) \<noteq> TaskStatusDownloading"
    by simp
qed

lemma prim_lengths [simp]:
  "length (tasks (setPc p c d)) = length (tasks d)"
  "length (workers (setPc p c d)) = length (workers d)"
  "length (tasks (handleDownloadError p e t d)) = length (tasks d)"
  "length (workers (handleDownloadError p e t d)) = length (workers d)"
  "length (tasks (completeTask p n t d)) = length (tasks d)"
  "length (workers (completeTask p n t d)) = length (workers d)"
  "length (tasks (failedWrite p k d)) = length (tasks d)"
  "length (workers (failedWrite p k d)) = length (workers d)"
  "length (tasks (addChunk p m err d)) = length (tasks d)"
  "length (workers (addChunk p m err d)) = length (workers d)"
  "length (tasks (callCancel taskID d)) = length (tasks d)"
  "length (workers (callCancel taskID d)) = length (workers d)"
  by (simp_all add: setPc_def handleDownloadError_def completeTask_def failedWrite_def
      addChunk_def callCancel_def cancel_def split: option.splits)

lemma inv_reg_prims:
  assumes "inv_reg d"
  shows "inv_reg (setPc p c d)"
    and "inv_reg (register p d)"
    and "inv_reg (unregister p d)"
    and "inv_reg (openFile p t d)"
    and "inv_reg (addChunk p n err d)"
    and "inv_reg (failedWrite p k d)"
    and "inv_reg (flush p t1 t2 d)"
    and "inv_reg (callCancel taskID d)"
proof -
  show "inv_reg (setPc p c d)"
    by (rule inv_reg_sub [OF assms]) (simp_all add: setPc_def)
  show "inv_reg (register p d)"
    by (rule inv_reg_sub [OF assms]) (simp_all add: register_def)
  show "inv_reg (unregister p d)"
    by (rule inv_reg_sub [OF assms]) (simp_all add: unregister_def)
  show "inv_reg (openFile p t d)"
    by (rule inv_reg_sub [OF assms]) (simp_all add: openFile_def)
  show "inv_reg (addChunk p n err d)"
    by (rule inv_reg_sub [OF assms]) (simp_all add: addChunk_def)
  show "inv_reg (failedWrite p k d)"
    by (rule inv_reg_sub [OF assms]) (simp_all add: failedWrite_def)
  show "inv_reg (flush p t1 t2 d)"
    by (rule inv_reg_sub [OF assms]) (auto simp: flush_def nth_upd split: if_splits)
  show "inv_reg (callCancel taskID d)"
    by (rule inv_reg_sub [OF assms])
       (simp_all add: callCancel_def cancel_def split: option.splits)
qed

lemma inv_reg_handleDownloadError:
  "inv_reg d \<Longrightarrow> p < length (tasks d) \<Longrightarrow> inv_reg (handleDownloadError p e t d)"
  by (rule inv_reg_finalise [where p = p and d = d and
        t' = "(tasks d ! p)\<lparr>Status := TaskStatusError, ErrorMessage := Some e,
                EndTime := Some t\<rparr>"])
     (simp_all add: handleDownloadError_def)

lemma inv_reg_completeTask:
  "inv_reg d \<Longrightarrow> p < length (tasks d) \<Longrightarrow> inv_reg (completeTask p n t d)"
  by (rule inv_reg_finalise [where p = p and d = d and
        t' = "(tasks d ! p)\<lparr>Status := TaskStatusCompleted, FileSize := n,
                EndTime := Some t\<rparr>"])
     (simp_all add: completeTask_def)

lemma inv_reg_StopTask:
  assumes "inv_reg d"
  shows "inv_reg (snd (StopTask taskID t d))"
proof (cases "activeTasks d taskID")
  case None
  then show ?thesis using assms by (simp add: StopTask_def)
next
  case (Some p)
  let ?c = "callCancel taskID d"
  have c: "tasks ?c = tasks d" "activeTasks ?c = activeTasks d"
    "completedTasks ?c = completedTasks d"
    by (simp_all add: callCancel_def cancel_def split: option.splits)
  have "inv_reg (markStopped p taskID t ?c)"
  proof (rule inv_reg_finalise [where p = p and d = ?c and
        t' = "(tasks d ! p)\<lparr>Status := TaskStatusCompleted, EndTime := Some t\<rparr>"])
    show "inv_reg ?c" by (rule inv_reg_prims [OF assms])
  qed (use inv_reg_active [OF assms Some] c in \<open>simp_all add: markStopped_def\<close>)
  with Some show ?thesis by (simp add: StopTask_def)
qed

lemma inv_reg_Delete:
  assumes "inv_reg d"
  shows "inv_reg (snd (DeleteActiveTask taskID rm d))"
    and "inv_reg (snd (DeleteCompletedTask taskID rm d))"
proof -
  show "inv_reg (snd (DeleteActiveTask taskID rm d))"
    by (rule inv_reg_sub [OF assms])
       (auto simp: DeleteActiveTask_def callCancel_def cancel_def
          split: option.splits remove_result.splits if_splits)
  show "inv_reg (snd (DeleteCompletedTask taskID rm d))"
    by (rule inv_reg_sub [OF assms])
       (auto simp: DeleteCompletedTask_def
          split: option.splits remove_result.splits if_splits)
qed

lemma inv_reg_worker:
  assumes "inv_reg d"
  shows "inv_reg (startDownload p ev d)"
  using assms inv_reg_length [OF assms]
  by (simp add: startDownload_def startDownload_at_def atRequest_def atLoop_def atRead_def
        atAfter_def inv_reg_prims inv_reg_handleDownloadError inv_reg_completeTask
      split: wpc.splits wevent.splits setup_result.splits write_result.splits read_err.splits)

lemma inv_reg_step: "inv_reg d \<Longrightarrow> inv_reg (step l d)"
  by (cases l) (simp_all add: inv_reg_CreateTask inv_reg_StopTask inv_reg_Delete inv_reg_worker)

lemma inv_reg_exec: "inv_reg d \<Longrightarrow> inv_reg (exec ls d)"
  by (induction ls arbitrary: d) (simp_all add: inv_reg_step)

lemma inv_disj_init: "inv_disj (empty_downloader dir)"
  by (simp add: inv_disj_def empty_downloader_def)

lemma inv_reg_completed_id:
  "inv_reg d \<Longrightarrow> completedTasks d k = Some p \<Longrightarrow> k \<in> set (map ID (tasks d))"
proof -
  assume "inv_reg d" and "completedTasks d k = Some p"
  then have "p < length (tasks d)" and "ID (tasks d ! p) = k"
    using inv_reg_completed [of d k p] by simp_all
  then have "tasks d ! p \<in> set (tasks d)" and "ID (tasks d ! p) = k"
    by simp_all
  then show ?thesis by force
qed

lemma inv_disj_CreateTask:
  assumes "inv_disj d" and "inv_reg d" and "fmt_d now \<notin> set (map ID (tasks d))"
  shows "inv_disj (snd (CreateTask url fileName now start d))"
proof -
  have "completedTasks d (fmt_d now) = None"
    using inv_reg_completed_id [OF assms(2)] assms(3) by (cases "completedTasks d (fmt_d now)") auto
  with assms(1) show ?thesis
    by (simp add: inv_disj_def CreateTask_def)
qed

lemma inv_disj_manager:
  assumes "inv_disj d"
  shows "inv_disj (snd (StopTask taskID t d))"
    and "inv_disj (snd (DeleteActiveTask taskID rm d))"
    and "inv_disj (snd (DeleteCompletedTask taskID rm d))"
  using assms
  by (auto simp: inv_disj_def op_defs split: option.splits remove_result.splits)

lemma inv_disj_worker:
  assumes "inv_disj d"
  shows "inv_disj (startDownload p ev d)"
  using assms
  by (auto simp: inv_disj_def worker_defs handleDownloadError_def completeTask_def
      split: wpc.splits wevent.splits setup_result.splits write_result.splits read_err.splits)

lemma inv_disj_step: "inv_disj d \<Longrightarrow> inv_reg d \<Longrightarrow> fresh l d \<Longrightarrow> inv_disj (step l d)"
  by (cases l) (simp_all add: inv_disj_manager inv_disj_worker inv_disj_CreateTask)

lemma inv_disj_exec:
  "inv_disj d \<Longrightarrow> inv_reg d \<Longrightarrow> fresh_ids ls d \<Longrightarrow> inv_disj (exec ls d)"
  by (induction ls arbitrary: d) (simp_all add: inv_disj_step inv_reg_step)

lemmas run_eval = op_defs worker_defs empty_downloader_def newTask_def newWorker_def
  resolveFileName_def Ext_def path_eval fmt_eval wrap64_def

lemma tasks_grow_step: "length (tasks d) \<le> length (tasks (step l d))"
  by (cases l)
     (auto simp: op_defs worker_defs
       split: option.splits remove_result.splits wpc.splits wevent.splits setup_result.splits
         write_result.splits read_err.splits)

lemma FileSize_mono_step:
  assumes "inv_bytes d" and "fits l d" and "p < length (tasks d)"
  shows "FileSize (tasks d ! p) \<le> FileSize (tasks (step l d) ! p)"
  using assms
  by (cases l)
     (auto simp: inv_bytes_def counter_ok_def op_defs worker_defs nth_upd nth_append wrap64_id
       split: option.splits remove_result.splits wpc.splits wevent.splits setup_result.splits
         write_result.splits read_err.splits)

lemma FileSize_mono_exec:
  "inv_bytes d \<Longrightarrow> in_int64 ls d \<Longrightarrow> p < length (tasks d) \<Longrightarrow>
     FileSize (tasks d ! p) \<le> FileSize (tasks (exec ls d) ! p)"
proof (induction ls arbitrary: d)
  case Nil
  then show ?case by simp
next
  case (Cons l ls)
  have "FileSize (tasks d ! p) \<le> FileSize (tasks (step l d) ! p)"
    using Cons.prems by (simp add: FileSize_mono_step)
  also have "\<dots> \<le> FileSize (tasks (exec ls (step l d)) ! p)"
    using Cons.prems tasks_grow_step [of d l]
    by (intro Cons.IH) (simp_all add: inv_bytes_step)
  finally show ?case by simp
qed

lemma in_int64_append: "in_int64 (xs @ ys) d = (in_int64 xs d \<and> in_int64 ys (exec xs d))"
  by (induction xs arbitrary: d) simp_all

subsection \<open>The example executions\<close>

lemma run_download_result:
  "tasks (exec run_download (empty_downloader ''/app/data'')) =
     [\<lparr>ID = ''7'', URL = ''http://x/live.flv'', FileName = ''show.flv'',
       FilePath = ''/app/data/show.flv'', Status = TaskStatusDownloading,
       FileSize = 100, StartTime = 8, EndTime = None, ErrorMessage = None\<rparr>]"
  "workers (exec run_download (empty_downloader ''/app/data'')) =
     [\<lparr>pc = PAfter EOF, totalBytes = 150, lastUpdate = 2000000001,
       ctxDone = False, written = 150\<rparr>]"
  "in_int64 run_download (empty_downloader ''/app/data'')"
  by (simp_all add: run_download_def run_eval)

lemma run_active_result:
  "tasks (exec run_active (empty_downloader ''/app/data'')) =
     [\<lparr>ID = ''7'', URL = ''http://x/live.flv'', FileName = ''show.flv'',
       FilePath = ''/app/data/show.flv'', Status = TaskStatusDownloading,
       FileSize = 0, StartTime = 8, EndTime = None, ErrorMessage = None\<rparr>]"
  "workers (exec run_active (empty_downloader ''/app/data'')) =
     [\<lparr>pc = PLoop, totalBytes = 0, lastUpdate = 10, ctxDone = False, written = 0\<rparr>]"
  "activeTasks (exec run_active (empty_downloader ''/app/data'')) = [''7'' \<mapsto> 0]"
  "completedTasks (exec run_active (empty_downloader ''/app/data'')) = Map.empty"
  "cancelFuncs (exec run_active (empty_downloader ''/app/data'')) = [''7'' \<mapsto> 0]"
  "clients (exec run_active (empty_downloader ''/app/data'')) = [''7'' \<mapsto> 0]"
  "fresh_ids run_active (empty_downloader ''/app/data'')"
  by (simp_all add: run_active_def run_eval)

subsection \<open>Status, end time and byte counts along executions\<close>

text \<open>
  Claim C5. In every state that an execution reaches from the empty downloader, by any
  interleaving of \<^verbatim>\<open>CreateTask\<close>, \<^verbatim>\<open>StopTask\<close>, the delete operations and the steps of
  the goroutines (publishing progress, completion, error), every task ever allocated has
  an end time if and only if its status is not \<^verbatim>\<open>downloading\<close>.
\<close>

theorem endedAt_iff_not_downloading:
  "p < length (tasks (exec ls (empty_downloader dir))) \<Longrightarrow>
     (EndTime (tasks (exec ls (empty_downloader dir)) ! p) \<noteq> None) =
     (Status (tasks (exec ls (empty_downloader dir)) ! p) \<noteq> TaskStatusDownloading)"
  using inv_status_exec [OF inv_status_init, of ls dir]
  by (simp add: inv_status_def task_ok_def)

theorem endedAt_iff_not_downloading_witness:
  "0 < length (tasks (exec (run_download @ [LWorker 0 (Finish 20)]) (empty_downloader ''/app/data''))) \<and>
   EndTime (tasks (exec (run_download @ [LWorker 0 (Finish 20)]) (empty_downloader ''/app/data'')) ! 0) = Some 20 \<and>
   Status (tasks (exec (run_download @ [LWorker 0 (Finish 20)]) (empty_downloader ''/app/data'')) ! 0)
     \<noteq> TaskStatusDownloading"
  using endedAt_iff_not_downloading [of 0 "run_download @ [LWorker 0 (Finish 20)]" "''/app/data''"]
  by (simp add: exec_append run_download_result worker_defs completeTask_def)

text \<open>
  Claim C8. Take two successive reads of a task's \<^verbatim>\<open>FileSize\<close>: one after the execution
  \<open>ls\<close>, the other after \<open>ls\<close> continued by any \<open>ls'\<close>. The second value is not
  smaller than the first, provided that no byte counter has left the range of
  \<^verbatim>\<open>int64\<close>, that is, no goroutine has written \<open>2^63\<close> bytes or more to one file.
\<close>

theorem bytesWritten_never_decreases:
  assumes "in_int64 (ls @ ls') (empty_downloader dir)"
    and "p < length (tasks (exec ls (empty_downloader dir)))"
  shows "FileSize (tasks (exec ls (empty_downloader dir)) ! p)
      \<le> FileSize (tasks (exec (ls @ ls') (empty_downloader dir)) ! p)"
proof -
  from assms(1) have a: "in_int64 ls (empty_downloader dir)"
    and b: "in_int64 ls' (exec ls (empty_downloader dir))"
    by (simp_all add: in_int64_append)
  have "inv_bytes (exec ls (empty_downloader dir))"
    using inv_bytes_init a by (rule inv_bytes_exec)
  from FileSize_mono_exec [OF this b assms(2)] show ?thesis
    by (simp add: exec_append)
qed

theorem bytesWritten_never_decreases_witness:
  "in_int64 (run_download @ [LWorker 0 (Finish 20)]) (empty_downloader ''/app/data'') \<and>
   0 < length (tasks (exec run_download (empty_downloader ''/app/data''))) \<and>
   100 \<le> FileSize (tasks (exec (run_download @ [LWorker 0 (Finish 20)]) (empty_downloader ''/app/data'')) ! 0)"
  using bytesWritten_never_decreases [of run_download "[LWorker 0 (Finish 20)]" "''/app/data''" 0]
  by (simp add: in_int64_append run_download_result)

text \<open>
  Claim C6. Let a goroutine have read the end of the stream, with no error, in any
  reachable state (the byte counters within \<^verbatim>\<open>int64\<close>). Its next step marks the task
  \<^verbatim>\<open>completed\<close>, sets \<^verbatim>\<open>FileSize\<close> to the number of bytes that the goroutine has
  written to the file in total, sets the end time, and moves the task from the active to
  the completed map. In the example the published size was 100 before and is 150 after.
\<close>

theorem end_of_stream_completes:
  assumes "in_int64 ls (empty_downloader dir)"
    and "d = exec ls (empty_downloader dir)"
    and "p < length (workers d)"
    and "pc (workers d ! p) = PAfter EOF"
  shows "Status (tasks (startDownload p (Finish t) d) ! p) = TaskStatusCompleted \<and>
     FileSize (tasks (startDownload p (Finish t) d) ! p) = int (written (workers d ! p)) \<and>
     EndTime (tasks (startDownload p (Finish t) d) ! p) = Some t \<and>
     activeTasks (startDownload p (Finish t) d) (ID (tasks d ! p)) = None \<and>
     completedTasks (startDownload p (Finish t) d) (ID (tasks d ! p)) = Some p"
proof -
  have "inv_bytes d"
    using inv_bytes_init assms(1) unfolding assms(2) by (rule inv_bytes_exec)
  then have "length (workers d) = length (tasks d)"
    and "counter_ok (tasks d ! p) (workers d ! p)"
    using assms(3) by (simp_all add: inv_bytes_def)
  then show ?thesis
    using assms(3,4)
    by (simp add: counter_ok_def startDownload_def startDownload_at_def atAfter_def setPc_def
        completeTask_def)
qed

theorem end_of_stream_completes_witness:
  "written (workers (exec run_download (empty_downloader ''/app/data'')) ! 0) = 150 \<and>
   FileSize (tasks (exec run_download (empty_downloader ''/app/data'')) ! 0) = 100 \<and>
   Status (tasks (startDownload 0 (Finish 20) (exec run_download (empty_downloader ''/app/data''))) ! 0)
     = TaskStatusCompleted \<and>
   FileSize (tasks (startDownload 0 (Finish 20) (exec run_download (empty_downloader ''/app/data''))) ! 0)
     = 150 \<and>
   EndTime (tasks (startDownload 0 (Finish 20) (exec run_download (empty_downloader ''/app/data''))) ! 0)
     = Some 20"
  using end_of_stream_completes [of run_download "''/app/data''"
      "exec run_download (empty_downloader ''/app/data'')" 0 20]
  by (simp add: run_download_result)

subsection \<open>Deleting an active task\<close>

text \<open>
  The state right after the call. Let the ids given to \<^verbatim>\<open>CreateTask\<close> be fresh. In every
  reachable state, a successful \<^verbatim>\<open>DeleteActiveTask\<close> of an id of the active map finds the
  task downloading and without end time, leaves the task record as it is, removes the id
  from the active map, inserts nothing into the completed map, where the id is not
  either, and a \<^verbatim>\<open>GetTask\<close> made right then finds nothing.
\<close>

theorem DeleteActiveTask_removes:
  assumes "fresh_ids ls (empty_downloader dir)"
    and "d = exec ls (empty_downloader dir)"
    and "activeTasks d taskID = Some p"
    and "fst (DeleteActiveTask taskID rm d) = None"
  shows "p < length (tasks d) \<and>
     Status (tasks d ! p) = TaskStatusDownloading \<and>
     EndTime (tasks d ! p) = None \<and>
     tasks (snd (DeleteActiveTask taskID rm d)) = tasks d \<and>
     activeTasks (snd (DeleteActiveTask taskID rm d)) = (activeTasks d)(taskID := None) \<and>
     completedTasks (snd (DeleteActiveTask taskID rm d)) = completedTasks d \<and>
     completedTasks (snd (DeleteActiveTask taskID rm d)) taskID = None \<and>
     GetTask taskID (snd (DeleteActiveTask taskID rm d)) = None"
proof -
  have reg: "inv_reg d"
    unfolding assms(2) using inv_reg_init by (rule inv_reg_exec)
  have "inv_disj d"
    unfolding assms(2) using inv_disj_init inv_reg_init assms(1) by (rule inv_disj_exec)
  then have "activeTasks d taskID = None \<or> completedTasks d taskID = None"
    by (simp add: inv_disj_def)
  with assms(3) have none: "completedTasks d taskID = None"
    by simp
  have "inv_status d"
    unfolding assms(2) using inv_status_init by (rule inv_status_exec)
  with inv_reg_active [OF reg assms(3)]
  have task: "p < length (tasks d)" "Status (tasks d ! p) = TaskStatusDownloading"
    "EndTime (tasks d ! p) = None"
    by (simp_all add: inv_status_def task_ok_def)
  have frame: "tasks (callCancel taskID d) = tasks d"
    "completedTasks (callCancel taskID d) = completedTasks d"
    by (simp_all add: callCancel_def cancel_def split: option.splits)
  from assms(3,4) none task frame show ?thesis
    by (simp add: DeleteActiveTask_def GetTask_def split: remove_result.splits)
qed

theorem DeleteActiveTask_removes_witness:
  "fresh_ids run_active (empty_downloader ''/app/data'') \<and>
   activeTasks (exec run_active (empty_downloader ''/app/data'')) ''7'' = Some 0 \<and>
   fst (DeleteActiveTask ''7'' Removed (exec run_active (empty_downloader ''/app/data''))) = None \<and>
   Status (tasks (exec run_active (empty_downloader ''/app/data'')) ! 0) = TaskStatusDownloading \<and>
   GetTask ''7'' (snd (DeleteActiveTask ''7'' Removed (exec run_active (empty_downloader ''/app/data''))))
     = None"
  using DeleteActiveTask_removes [of run_active "''/app/data''"
      "exec run_active (empty_downloader ''/app/data'')" "''7''" 0 Removed]
  by (simp add: run_active_result DeleteActiveTask_def)

lemma run_blocked_result:
  "tasks (exec run_blocked (empty_downloader ''/app/data'')) =
     [\<lparr>ID = ''7'', URL = ''http://x/live.flv'', FileName = ''show.flv'',
       FilePath = ''/app/data/show.flv'', Status = TaskStatusDownloading,
       FileSize = 0, StartTime = 8, EndTime = None, ErrorMessage = None\<rparr>]"
  "workers (exec run_blocked (empty_downloader ''/app/data'')) =
     [\<lparr>pc = PRead, totalBytes = 0, lastUpdate = 10, ctxDone = False, written = 0\<rparr>]"
  "activeTasks (exec run_blocked (empty_downloader ''/app/data'')) = [''7'' \<mapsto> 0]"
  "completedTasks (exec run_blocked (empty_downloader ''/app/data'')) = Map.empty"
  "cancelFuncs (exec run_blocked (empty_downloader ''/app/data'')) = [''7'' \<mapsto> 0]"
  "clients (exec run_blocked (empty_downloader ''/app/data'')) = [''7'' \<mapsto> 0]"
  by (simp_all add: run_blocked_def exec_append run_active_result worker_defs)

text \<open>
  Claim C9 says that a successful \<^verbatim>\<open>DeleteActiveTask\<close> removes the task without ever
  marking it terminal, that the task is then in neither map, and that a later
  \<^verbatim>\<open>GetTask\<close> finds nothing. The code does not keep this. In \<open>run_delete_blocked\<close> the
  ids are fresh and the task is deleted, with success, while its goroutine waits in
  \<^verbatim>\<open>Read\<close>; the cancelled \<^verbatim>\<open>Read\<close> returns an error, the goroutine calls
  \<^verbatim>\<open>handleDownloadError\<close>, and the deleted task has the status \<^verbatim>\<open>error\<close> and an end
  time, is in the completed map, and is found by \<^verbatim>\<open>GetTask\<close>. The goroutine leaves
  without a word only when it sees the cancellation at the head of its loop.
\<close>

theorem deleted_task_reappears:
  "fresh_ids run_delete_blocked (empty_downloader ''/app/data'') \<and>
   activeTasks (exec run_blocked (empty_downloader ''/app/data'')) ''7'' = Some 0 \<and>
   fst (DeleteActiveTask ''7'' Removed (exec run_blocked (empty_downloader ''/app/data'')))
     = None \<and>
   Status (tasks (exec run_delete_blocked (empty_downloader ''/app/data'')) ! 0)
     = TaskStatusError \<and>
   EndTime (tasks (exec run_delete_blocked (empty_downloader ''/app/data'')) ! 0) = Some 13 \<and>
   completedTasks (exec run_delete_blocked (empty_downloader ''/app/data'')) ''7'' = Some 0 \<and>
   GetTask ''7'' (exec run_delete_blocked (empty_downloader ''/app/data'')) = Some 0"
  by (simp add: run_delete_blocked_def read_cancelled_def run_blocked_def exec_append
      run_active_def run_eval GetTask_def)

subsection \<open>The task lists\<close>

lemma map_filter_set: "set (List.map_filter f xs) = {y. \<exists>x \<in> set xs. f x = Some y}"
  by (induction xs) (auto simp: List.map_filter_simps split: option.splits)

lemma map_filter_length:
  "set xs \<subseteq> dom f \<Longrightarrow> length (List.map_filter f xs) = length xs"
  by (induction xs) (auto simp: List.map_filter_simps split: option.splits)

lemma listing_ran:
  assumes "set order = dom f"
  shows "set (List.map_filter f order) = ran f"
  using assms by (auto simp: map_filter_set ran_def dom_def)

text \<open>
  Claim C4, as the code has it. \<^verbatim>\<open>GetActiveTasks\<close> and \<^verbatim>\<open>GetCompletedTasks\<close> return a
  new slice that holds, once for every id of the map, the pointer stored under it: which
  tasks are listed is a snapshot, but the elements are the pointers of the registry
  itself, not copies of the records.
\<close>

theorem GetActiveTasks_pointers:
  assumes "distinct order" and "set order = dom (activeTasks d)"
    and "distinct order'" and "set order' = dom (completedTasks d)"
  shows "set (GetActiveTasks order d) = ran (activeTasks d) \<and>
     length (GetActiveTasks order d) = card (dom (activeTasks d)) \<and>
     set (GetCompletedTasks order' d) = ran (completedTasks d) \<and>
     length (GetCompletedTasks order' d) = card (dom (completedTasks d))"
  using assms distinct_card [of order] distinct_card [of order']
  by (simp add: GetActiveTasks_def GetCompletedTasks_def listing_ran map_filter_length)

theorem GetActiveTasks_pointers_witness:
  "GetActiveTasks [''7''] (exec run_active (empty_downloader ''/app/data'')) = [0] \<and>
   ran (activeTasks (exec run_active (empty_downloader ''/app/data''))) = {0} \<and>
   GetCompletedTasks [] (exec run_active (empty_downloader ''/app/data'')) = []"
  using GetActiveTasks_pointers [of "[''7'']" "exec run_active (empty_downloader ''/app/data'')" "[]"]
  by (simp add: run_active_result GetActiveTasks_def GetCompletedTasks_def)

text \<open>
  The claim as the specification states it fails: a caller holds the list returned while
  the goroutine was about to read; after the goroutine has published 100 bytes, the
  caller reads the size 100 through the same list, where it read 0 before.
\<close>

theorem GetActiveTasks_alias_counterexample:
  "GetActiveTasks [''7''] (exec (run_active @ [LWorker 0 CheckCtx]) (empty_downloader ''/app/data''))
     = [0] \<and>
   map (\<lambda>p. FileSize (tasks (exec (run_active @ [LWorker 0 CheckCtx]) (empty_downloader ''/app/data'')) ! p))
     (GetActiveTasks [''7''] (exec (run_active @ [LWorker 0 CheckCtx]) (empty_downloader ''/app/data'')))
     = [0] \<and>
   map (\<lambda>p. FileSize (tasks (step (LWorker 0 (ReadChunk 100 NoErr WriteOk 2000000000 2000000001))
        (exec (run_active @ [LWorker 0 CheckCtx]) (empty_downloader ''/app/data''))) ! p))
     (GetActiveTasks [''7''] (exec (run_active @ [LWorker 0 CheckCtx]) (empty_downloader ''/app/data'')))
     = [100]"
  by (simp add: exec_append run_active_result GetActiveTasks_def worker_defs wrap64_def)

subsection \<open>How a goroutine leaves \<^verbatim>\<open>startDownload\<close>\<close>

lemma run_deleted_result:
  "tasks (exec run_deleted (empty_downloader ''/app/data'')) =
     [\<lparr>ID = ''7'', URL = ''http://x/live.flv'', FileName = ''show.flv'',
       FilePath = ''/app/data/show.flv'', Status = TaskStatusDownloading,
       FileSize = 0, StartTime = 8, EndTime = None, ErrorMessage = None\<rparr>]"
  "workers (exec run_deleted (empty_downloader ''/app/data'')) =
     [\<lparr>pc = PDone, totalBytes = 0, lastUpdate = 10, ctxDone = True, written = 0\<rparr>]"
  "activeTasks (exec run_deleted (empty_downloader ''/app/data'')) ''7'' = None"
  "completedTasks (exec run_deleted (empty_downloader ''/app/data'')) ''7'' = None"
  "cancelFuncs (exec run_deleted (empty_downloader ''/app/data'')) ''7'' = None"
  by (simp_all add: run_deleted_def exec_append run_active_result op_defs worker_defs)

lemma only_exit_finalizes:
  assumes "p < length (workers d)" and "length (workers d) = length (tasks d)"
    and "pc (workers (startDownload p ev d) ! p) \<noteq> PCleanup"
    and "pc (workers (startDownload p ev d) ! p) \<noteq> PDone"
  shows "activeTasks (startDownload p ev d) = activeTasks d \<and>
         completedTasks (startDownload p ev d) = completedTasks d \<and>
         Status (tasks (startDownload p ev d) ! q) = Status (tasks d ! q) \<and>
         EndTime (tasks (startDownload p ev d) ! q) = EndTime (tasks d ! q)"
  using assms
  by (cases "q = p")
     (auto simp: worker_defs handleDownloadError_def completeTask_def
       split: wpc.splits wevent.splits setup_result.splits write_result.splits
         read_err.splits if_splits)

text \<open>
  Claim C1, as the code has it. A goroutine enters its exit (the deferred function is
  what remains to run) by one step, and that step either finalizes the task or is the
  cancellation path. On the error paths (request, connection, status, file creation,
  write, read) and at the end of the stream, the step sets the end time and a terminal
  status, removes the task's id from the active map and stores the task in the completed
  map. On the cancellation path the step changes neither the task nor the two maps. The
  deferred function then removes the cancel function and the client, and changes neither
  the task nor the two maps. After that, and for every event but \<open>Cleanup\<close> in the exit,
  the goroutine does nothing more; and a step that leaves the goroutine before its exit
  changes no status, no end time and neither map. So the goroutine finalizes in the step
  that enters the exit, and at most once.
\<close>

theorem worker_exit_paths:
  assumes "p < length (workers d)" and "length (workers d) = length (tasks d)"
  shows
    "(pc (workers d ! p) \<noteq> PCleanup \<and> pc (workers (startDownload p ev d) ! p) = PCleanup \<longrightarrow>
        (\<exists>t. finalized p t d (startDownload p ev d)) \<or>
        (ev = CheckCtx \<and> pc (workers d ! p) = PLoop \<and> ctxDone (workers d ! p) \<and>
           untouched d (startDownload p ev d))) \<and>
     (pc (workers d ! p) = PRequest \<and> r \<noteq> SetupOk \<longrightarrow>
        finalized p t d (startDownload p (Setup r t) d)) \<and>
     (pc (workers d ! p) = PRead \<and> 0 < n \<longrightarrow>
        finalized p t1 d (startDownload p (ReadChunk n err (WriteErr k e) t1 t2) d)) \<and>
     (pc (workers d ! p) = PAfter err \<and> err \<noteq> NoErr \<longrightarrow>
        finalized p t d (startDownload p (Finish t) d)) \<and>
     (pc (workers d ! p) = PLoop \<and> ctxDone (workers d ! p) \<longrightarrow>
        untouched d (startDownload p CheckCtx d) \<and>
        pc (workers (startDownload p CheckCtx d) ! p) = PCleanup) \<and>
     (pc (workers d ! p) = PCleanup \<longrightarrow>
        untouched d (startDownload p Cleanup d) \<and>
        cancelFuncs (startDownload p Cleanup d) (ID (tasks d ! p)) = None \<and>
        clients (startDownload p Cleanup d) (ID (tasks d ! p)) = None \<and>
        pc (workers (startDownload p Cleanup d) ! p) = PDone) \<and>
     (pc (workers d ! p) = PCleanup \<and> ev \<noteq> Cleanup \<longrightarrow> startDownload p ev d = d) \<and>
     (pc (workers d ! p) = PDone \<longrightarrow> startDownload p ev d = d) \<and>
     (pc (workers (startDownload p ev d) ! p) \<noteq> PCleanup \<and>
      pc (workers (startDownload p ev d) ! p) \<noteq> PDone \<longrightarrow>
        activeTasks (startDownload p ev d) = activeTasks d \<and>
        completedTasks (startDownload p ev d) = completedTasks d \<and>
        Status (tasks (startDownload p ev d) ! q) = Status (tasks d ! q) \<and>
        EndTime (tasks (startDownload p ev d) ! q) = EndTime (tasks d ! q))"
proof (intro conjI impI)
  assume "pc (workers d ! p) \<noteq> PCleanup \<and> pc (workers (startDownload p ev d) ! p) = PCleanup"
  then show "(\<exists>t. finalized p t d (startDownload p ev d)) \<or>
        (ev = CheckCtx \<and> pc (workers d ! p) = PLoop \<and> ctxDone (workers d ! p) \<and>
           untouched d (startDownload p ev d))"
    using assms
    by (auto simp: finalized_def untouched_def worker_defs handleDownloadError_def
          completeTask_def
        split: wpc.splits wevent.splits setup_result.splits write_result.splits
          read_err.splits if_splits)
next
  assume "pc (workers d ! p) = PRequest \<and> r \<noteq> SetupOk"
  then show "finalized p t d (startDownload p (Setup r t) d)"
    using assms
    by (cases r)
       (simp_all add: finalized_def startDownload_def startDownload_at_def atRequest_def
          setPc_def handleDownloadError_def)
next
  assume "pc (workers d ! p) = PRead \<and> 0 < n"
  then show "finalized p t1 d (startDownload p (ReadChunk n err (WriteErr k e) t1 t2) d)"
    using assms
    by (simp add: finalized_def startDownload_def startDownload_at_def atRead_def
          failedWrite_def handleDownloadError_def)
next
  assume "pc (workers d ! p) = PAfter err \<and> err \<noteq> NoErr"
  then show "finalized p t d (startDownload p (Finish t) d)"
    using assms
    by (cases err)
       (simp_all add: finalized_def startDownload_def startDownload_at_def atAfter_def
          setPc_def handleDownloadError_def completeTask_def)
next
  assume "pc (workers d ! p) = PLoop \<and> ctxDone (workers d ! p)"
  then show "untouched d (startDownload p CheckCtx d)"
    and "pc (workers (startDownload p CheckCtx d) ! p) = PCleanup"
    using assms
    by (simp_all add: untouched_def startDownload_def startDownload_at_def atLoop_def setPc_def)
next
  assume "pc (workers d ! p) = PCleanup"
  then show "untouched d (startDownload p Cleanup d)"
    and "cancelFuncs (startDownload p Cleanup d) (ID (tasks d ! p)) = None"
    and "clients (startDownload p Cleanup d) (ID (tasks d ! p)) = None"
    and "pc (workers (startDownload p Cleanup d) ! p) = PDone"
    using assms
    by (simp_all add: untouched_def startDownload_def startDownload_at_def setPc_def
          unregister_def)
next
  assume "pc (workers d ! p) = PCleanup \<and> ev \<noteq> Cleanup"
  then show "startDownload p ev d = d"
    by (cases ev) (simp_all add: startDownload_def startDownload_at_def)
next
  assume "pc (workers d ! p) = PDone"
  then show "startDownload p ev d = d"
    by (simp add: startDownload_def startDownload_at_def)
next
  assume "pc (workers (startDownload p ev d) ! p) \<noteq> PCleanup \<and>
      pc (workers (startDownload p ev d) ! p) \<noteq> PDone"
  then show "activeTasks (startDownload p ev d) = activeTasks d"
    and "completedTasks (startDownload p ev d) = completedTasks d"
    and "Status (tasks (startDownload p ev d) ! q) = Status (tasks d ! q)"
    and "EndTime (tasks (startDownload p ev d) ! q) = EndTime (tasks d ! q)"
    using only_exit_finalizes [OF assms, of ev q] by simp_all
qed

theorem worker_exit_paths_witness:
  "finalized 0 20 (exec run_download (empty_downloader ''/app/data''))
     (startDownload 0 (Finish 20) (exec run_download (empty_downloader ''/app/data''))) \<and>
   untouched (exec (run_active @ [LDeleteActive ''7'' Removed]) (empty_downloader ''/app/data''))
     (startDownload 0 CheckCtx
        (exec (run_active @ [LDeleteActive ''7'' Removed]) (empty_downloader ''/app/data''))) \<and>
   cancelFuncs (startDownload 0 Cleanup
        (exec (run_active @ [LDeleteActive ''7'' Removed, LWorker 0 CheckCtx])
           (empty_downloader ''/app/data''))) ''7'' = None \<and>
   startDownload 0 Cleanup (exec run_deleted (empty_downloader ''/app/data''))
     = exec run_deleted (empty_downloader ''/app/data'')"
  using
    worker_exit_paths [of 0 "exec run_download (empty_downloader ''/app/data'')"
      "Finish 20" SetupOk 20 0 20 EOF 0 "[]" 20]
    worker_exit_paths [of 0
      "exec (run_active @ [LDeleteActive ''7'' Removed]) (empty_downloader ''/app/data'')"
      CheckCtx SetupOk 20 0 20 EOF 0 "[]" 20]
    worker_exit_paths [of 0
      "exec (run_active @ [LDeleteActive ''7'' Removed, LWorker 0 CheckCtx])
         (empty_downloader ''/app/data'')"
      Cleanup SetupOk 20 0 20 EOF 0 "[]" 20]
    worker_exit_paths [of 0 "exec run_deleted (empty_downloader ''/app/data'')"
      Cleanup SetupOk 20 0 20 EOF 0 "[]" 20]
  by (simp add: run_download_result run_deleted_result exec_append run_active_result
      op_defs worker_defs)

text \<open>
  The claim as the specification states it fails on the cancellation path: a task is
  deleted while its goroutine is at the head of the loop; the goroutine sees the
  cancelled context and runs to its end, and the task has no end time and is not in the
  completed map.
\<close>

theorem cancelled_worker_counterexample:
  "pc (workers (exec (run_active @ [LDeleteActive ''7'' Removed]) (empty_downloader ''/app/data'')) ! 0)
     = PLoop \<and>
   ctxDone (workers (exec (run_active @ [LDeleteActive ''7'' Removed]) (empty_downloader ''/app/data'')) ! 0) \<and>
   pc (workers (exec run_deleted (empty_downloader ''/app/data'')) ! 0) = PDone \<and>
   EndTime (tasks (exec run_deleted (empty_downloader ''/app/data'')) ! 0) = None \<and>
   completedTasks (exec run_deleted (empty_downloader ''/app/data'')) ''7'' = None"
  by (simp add: run_deleted_result exec_append run_active_result op_defs)

subsection \<open>Stopping a task again\<close>

lemma absent_step:
  assumes "activeTasks d k = None" and "\<not> creates k l"
  shows "activeTasks (step l d) k = None"
  using assms
  by (cases l)
     (auto simp: op_defs worker_defs
       split: option.splits remove_result.splits wpc.splits wevent.splits setup_result.splits
         write_result.splits read_err.splits)

lemma absent_exec:
  "activeTasks d k = None \<Longrightarrow> no_create k ls \<Longrightarrow> activeTasks (exec ls d) k = None"
  by (induction ls arbitrary: d) (simp_all add: no_create_def absent_step)

text \<open>
  Claim C3, as the code has it. \<^verbatim>\<open>StopTask\<close> on an id that is not in the active map
  returns the not-found error and changes nothing. On an id of the active map it
  succeeds and moves the id to the completed map. A second call on the same id, made
  directly after the first or after any steps \<open>ls\<close> of the goroutines and of the other
  operations that create no task with this id, returns the not-found error and leaves
  the state exactly as it found it.
\<close>

theorem StopTask_again:
  "(activeTasks d taskID = None \<longrightarrow> StopTask taskID t d = (Some (TaskNotExist taskID), d)) \<and>
   (activeTasks d taskID = Some p \<and> no_create taskID ls \<longrightarrow>
      fst (StopTask taskID t d) = None \<and>
      activeTasks (snd (StopTask taskID t d)) taskID = None \<and>
      completedTasks (snd (StopTask taskID t d)) taskID = Some p \<and>
      StopTask taskID t' (exec ls (snd (StopTask taskID t d)))
        = (Some (TaskNotExist taskID), exec ls (snd (StopTask taskID t d))))"
proof (intro conjI impI)
  assume "activeTasks d taskID = None"
  then show "StopTask taskID t d = (Some (TaskNotExist taskID), d)"
    by (simp add: StopTask_def)
next
  assume a: "activeTasks d taskID = Some p \<and> no_create taskID ls"
  then show first: "fst (StopTask taskID t d) = None"
    and gone: "activeTasks (snd (StopTask taskID t d)) taskID = None"
    and "completedTasks (snd (StopTask taskID t d)) taskID = Some p"
    by (simp_all add: StopTask_def markStopped_def)
  from gone a have "activeTasks (exec ls (snd (StopTask taskID t d))) taskID = None"
    by (simp add: absent_exec)
  then show "StopTask taskID t' (exec ls (snd (StopTask taskID t d)))
        = (Some (TaskNotExist taskID), exec ls (snd (StopTask taskID t d)))"
    by (simp add: StopTask_def)
qed

theorem StopTask_again_witness:
  "StopTask ''8'' 9 (exec run_blocked (empty_downloader ''/app/data''))
     = (Some (TaskNotExist ''8''), exec run_blocked (empty_downloader ''/app/data'')) \<and>
   fst (StopTask ''7'' 9 (exec run_blocked (empty_downloader ''/app/data''))) = None \<and>
   StopTask ''7'' 14
      (snd (StopTask ''7'' 9 (exec run_blocked (empty_downloader ''/app/data''))))
     = (Some (TaskNotExist ''7''),
        snd (StopTask ''7'' 9 (exec run_blocked (empty_downloader ''/app/data'')))) \<and>
   StopTask ''7'' 14
      (exec read_cancelled
         (snd (StopTask ''7'' 9 (exec run_blocked (empty_downloader ''/app/data'')))))
     = (Some (TaskNotExist ''7''),
        exec read_cancelled
          (snd (StopTask ''7'' 9 (exec run_blocked (empty_downloader ''/app/data'')))))"
  using
    StopTask_again [of "exec run_blocked (empty_downloader ''/app/data'')" "''8''" 9 0 "[]" 14]
    StopTask_again [of "exec run_blocked (empty_downloader ''/app/data'')" "''7''" 9 0 "[]" 14]
    StopTask_again [of "exec run_blocked (empty_downloader ''/app/data'')" "''7''" 9 0
      read_cancelled 14]
  by (simp add: run_blocked_result no_create_def read_cancelled_def)

text \<open>
  The claim as the specification states it fails: the second of two calls in a row on
  an active task returns an error.
\<close>

theorem StopTask_twice_counterexample:
  "fst (StopTask ''7'' 10 (snd (StopTask ''7'' 9
      (snd (CreateTask ''http://x/live.flv'' ''show'' 7 8 (empty_downloader ''/app/data''))))))
     = Some (TaskNotExist ''7'')"
  by (simp add: StopTask_def CreateTask_def empty_downloader_def fmt_eval markStopped_def
      callCancel_def)

end
